theory Spec2Isabelle
  imports Complex_Main
begin

section \<open>Python values and exceptions\<close>

text \<open>
  The script \<^verbatim>\<open>src/preprocess.py\<close> is one function \<^verbatim>\<open>main\<close>. Exceptions that
  the script does not catch are values of \<open>py_error\<close>; \<open>LibraryError\<close> stands for an
  exception raised inside \<^verbatim>\<open>requests\<close> or \<^verbatim>\<open>PIL\<close>, named by its class.
\<close>

datatype py_error =
    KeyError string
  | TypeError
  | ZeroDivisionError
  | OverflowError
  | LibraryError string

section \<open>Binary64 arithmetic of the scaler\<close>

text \<open>
  Python's \<^verbatim>\<open>float\<close> is IEEE 754 binary64 with round-to-nearest, ties-to-even. The
  scaler only ever holds non-negative values, so a value is either \<open>Finite m e\<close>, the
  number \<open>m * 2 ^ e\<close>, or \<open>Inf\<close>.
\<close>

datatype binary64 = Finite nat int | Inf

fun bit_length :: "nat \<Rightarrow> nat" where
  "bit_length n = (if n = 0 then 0 else Suc (bit_length (n div 2)))"

declare bit_length.simps [simp del]

text \<open>The integer nearest to \<open>p / q\<close>, a tie going to the even neighbour.\<close>

definition round_half_even :: "nat \<Rightarrow> nat \<Rightarrow> nat" where
  "round_half_even p q =
     (let f = p div q; r = p mod q
      in if 2 * r < q then f
         else if q < 2 * r then f + 1
         else if even f then f else f + 1)"

text \<open>\<open>shift n k\<close> is \<open>n * 2 ^ k\<close> for \<open>k \<ge> 0\<close> and \<open>n\<close> otherwise.\<close>

definition shift :: "nat \<Rightarrow> int \<Rightarrow> nat" where
  "shift n k = n * 2 ^ nat k"

text \<open>
  The binary64 value nearest to the exact quotient \<open>p / q\<close> (\<open>q > 0\<close>): the exponent \<open>n\<close>
  puts \<open>p / (q * 2 ^ n)\<close> in \<open>[2 ^ 52, 2 ^ 53)\<close>, it is clamped at \<open>- 1074\<close> for
  subnormal results, and a result of \<open>2 ^ 1024\<close> or more is \<open>Inf\<close>.
\<close>

definition round_binary64 :: "nat \<Rightarrow> nat \<Rightarrow> binary64" where
  "round_binary64 p q =
     (if p = 0 then Finite 0 0
      else
        let t = int (bit_length p) - int (bit_length q) - 53;
            n = (if 2 ^ 53 * shift q t \<le> shift p (- t) then t + 1 else t);
            e = max n (- 1074);
            m = round_half_even (shift p (- e)) (shift q e)
        in if 971 < e \<or> (e = 971 \<and> m = 2 ^ 53) then Inf else Finite m e)"

text \<open>
  \<^verbatim>\<open>a / b\<close> on Python ints is the correctly rounded quotient; it raises
  \<^verbatim>\<open>ZeroDivisionError\<close> for \<^verbatim>\<open>b == 0\<close> and \<^verbatim>\<open>OverflowError\<close> when the result is too
  large for a float.
\<close>

definition py_truediv :: "nat \<Rightarrow> nat \<Rightarrow> py_error + binary64" where
  "py_truediv a b =
     (if b = 0 then Inl ZeroDivisionError
      else case round_binary64 a b of
             Inf \<Rightarrow> Inl OverflowError
           | Finite m e \<Rightarrow> Inr (Finite m e))"

text \<open>
  \<^verbatim>\<open>x * n\<close> for a float \<^verbatim>\<open>x\<close> and an int \<^verbatim>\<open>n\<close>: \<^verbatim>\<open>n\<close> is converted to a float
  (\<^verbatim>\<open>OverflowError\<close> when too large), then the exact product is rounded.
\<close>

definition py_float_mul_int :: "binary64 \<Rightarrow> nat \<Rightarrow> py_error + binary64" where
  "py_float_mul_int x n =
     (case round_binary64 n 1 of
        Inf \<Rightarrow> Inl OverflowError
      | Finite m2 e2 \<Rightarrow>
          (case x of
             Inf \<Rightarrow> Inr Inf
           | Finite m1 e1 \<Rightarrow>
               Inr (round_binary64 (shift (m1 * m2) (e1 + e2)) (shift 1 (- (e1 + e2))))))"

text \<open>\<^verbatim>\<open>int(x)\<close> truncates; on infinity it raises \<^verbatim>\<open>OverflowError\<close>.\<close>

definition py_int :: "binary64 \<Rightarrow> py_error + nat" where
  "py_int x =
     (case x of
        Inf \<Rightarrow> Inl OverflowError
      | Finite m e \<Rightarrow> Inr (shift m e div shift 1 (- e)))"

section \<open>The scaler (lines 60 to 90 of \<^verbatim>\<open>main\<close>)\<close>

text \<open>\<^verbatim>\<open>int((scaled / image_a) * image_b)\<close>, the expression of lines 77 and 85.\<close>

definition scaled_side :: "nat \<Rightarrow> nat \<Rightarrow> nat \<Rightarrow> py_error + nat" where
  "scaled_side scaled image_a image_b =
     (case py_truediv scaled image_a of
        Inl err \<Rightarrow> Inl err
      | Inr d \<Rightarrow>
          (case py_float_mul_int d image_b of
             Inl err \<Rightarrow> Inl err
           | Inr y \<Rightarrow> py_int y))"

definition screen_width :: nat where
  "screen_width = 320"

definition screen_height :: nat where
  "screen_height = 240"

text \<open>
  The pair \<open>(scaled_width, scaled_height)\<close> that line 93 passes to \<^verbatim>\<open>image.resize\<close>,
  from \<^verbatim>\<open>image.size\<close>, a pair of non-negative ints.
\<close>

definition scale :: "nat \<Rightarrow> nat \<Rightarrow> py_error + nat \<times> nat" where
  "scale image_width image_height =
     (if image_width \<noteq> image_height then
        if image_width > image_height then
          (case scaled_side screen_width image_width image_height of
             Inl err \<Rightarrow> Inl err
           | Inr scaled_height \<Rightarrow> Inr (screen_width, scaled_height))
        else
          (case scaled_side screen_height image_height image_width of
             Inl err \<Rightarrow> Inl err
           | Inr scaled_width \<Rightarrow> Inr (scaled_width, screen_height))
      else Inr (min screen_width screen_height, min screen_width screen_height))"

section \<open>The world outside the script\<close>

text \<open>
  What \<^verbatim>\<open>response.json()\<close> returns: a JSON document as a Python value. A number
  keeps its literal text, an object its members in document order.
\<close>

datatype json_value =
    JNull
  | JBool bool
  | JNumber string
  | JString string
  | JArray "json_value list"
  | JObject "(string \<times> json_value) list"

text \<open>
  \<^verbatim>\<open>doc[key]\<close> for a string key: a dict answers with the last member of that name
  (what \<^verbatim>\<open>json\<close> keeps of a repeated key) or raises \<^verbatim>\<open>KeyError\<close>; every other value
  raises \<^verbatim>\<open>TypeError\<close>.
\<close>

fun py_getitem :: "json_value \<Rightarrow> string \<Rightarrow> py_error + json_value" where
  "py_getitem (JObject members) key =
     (case map_of (rev members) key of
        None \<Rightarrow> Inl (KeyError key)
      | Some v \<Rightarrow> Inr v)"
| "py_getitem _ key = Inl TypeError"

record http_response =
  status_code :: int
  json :: "py_error + json_value"
  content :: "nat list"

record image =
  image_size :: "nat \<times> nat"
  image_data :: "nat list"

datatype stored_file = Encoded string bool image | Other "nat list"

type_synonym filesystem = "string \<rightharpoonup> stored_file"

text \<open>
  The libraries and the network, as the script meets them: \<open>requests_get n url\<close> is
  the answer to the \<open>n\<close>-th call of \<^verbatim>\<open>requests.get\<close>, \<open>image_open\<close> is
  \<^verbatim>\<open>Image.open\<close> on the downloaded bytes, \<open>image_resize\<close> is \<^verbatim>\<open>Image.resize\<close>, and
  \<open>image_save\<close> says whether \<^verbatim>\<open>Image.save\<close> fails, and with which files left behind.
\<close>

record env =
  getenv :: "string \<Rightarrow> string option"
  requests_get :: "nat \<Rightarrow> json_value \<Rightarrow> py_error + http_response"
  image_open :: "nat list \<Rightarrow> py_error + image"
  image_resize :: "image \<Rightarrow> nat \<times> nat \<Rightarrow> py_error + image"
  image_save :: "filesystem \<Rightarrow> image \<Rightarrow> string \<Rightarrow> (py_error \<times> filesystem) option"

datatype event =
    Getenv string
  | HttpGet json_value
  | ParseJson
  | Print string
  | ImageOpen "nat list"
  | ImageResize "nat \<times> nat"
  | ImageSave string string bool

datatype outcome = Completed | SysExit int | Uncaught py_error

record run =
  trace :: "event list"
  files :: filesystem
  outcome :: outcome

definition finish :: "event list \<Rightarrow> filesystem \<Rightarrow> outcome \<Rightarrow> run" where
  "finish tr fs out = \<lparr>trace = tr, files = fs, outcome = out\<rparr>"

fun requested_urls :: "event list \<Rightarrow> json_value list" where
  "requested_urls [] = []"
| "requested_urls (HttpGet url # es) = url # requested_urls es"
| "requested_urls (_ # es) = requested_urls es"

section \<open>Formatting\<close>

text \<open>\<^verbatim>\<open>str\<close> of an int, as an f-string renders \<^verbatim>\<open>response.status_code\<close>.\<close>

fun str_nat :: "nat \<Rightarrow> string" where
  "str_nat n =
     (if n < 10 then [''0123456789'' ! n]
      else str_nat (n div 10) @ [''0123456789'' ! (n mod 10)])"

declare str_nat.simps [simp del]

definition str_int :: "int \<Rightarrow> string" where
  "str_int i = (if i < 0 then CHR ''-'' # str_nat (nat (- i)) else str_nat (nat i))"

section \<open>The script\<close>

text \<open>Lines 57 to 96: decode, scale, resize, save.\<close>

definition output_path :: string where
  "output_path = ''../image/apod.jpg''"

definition process_image :: "env \<Rightarrow> filesystem \<Rightarrow> event list \<Rightarrow> http_response \<Rightarrow> run" where
  "process_image world fs tr response =
     (let tr1 = tr @ [ImageOpen (content response)]
      in case image_open world (content response) of
           Inl err \<Rightarrow> finish tr1 fs (Uncaught err)
         | Inr im \<Rightarrow>
             (case image_size im of
                (image_width, image_height) \<Rightarrow>
                  (case scale image_width image_height of
                     Inl err \<Rightarrow> finish tr1 fs (Uncaught err)
                   | Inr scaled \<Rightarrow>
                       (let tr2 = tr1 @ [ImageResize scaled]
                        in case image_resize world im scaled of
                             Inl err \<Rightarrow> finish tr2 fs (Uncaught err)
                           | Inr resized \<Rightarrow>
                               (let tr3 = tr2 @ [ImageSave output_path ''JPEG'' False]
                                in case image_save world fs resized output_path of
                                     Some (err, fs') \<Rightarrow> finish tr3 fs' (Uncaught err)
                                   | None \<Rightarrow>
                                       finish tr3
                                         (fs(output_path \<mapsto> Encoded ''JPEG'' False resized))
                                         Completed)))))"

text \<open>Lines 48 to 55: the second request, for the image itself.\<close>

definition download_image :: "env \<Rightarrow> filesystem \<Rightarrow> event list \<Rightarrow> json_value \<Rightarrow> run" where
  "download_image world fs tr apod_image_url =
     (let tr1 = tr @ [HttpGet apod_image_url]
      in case requests_get world 1 apod_image_url of
           Inl err \<Rightarrow> finish tr1 fs (Uncaught err)
         | Inr response \<Rightarrow>
             if status_code response \<noteq> 200 then
               finish
                 (tr1 @ [Print ''Error Downloading APOD Image'',
                         Print (''Response Code: '' @ str_int (status_code response))])
                 fs (SysExit 1)
             else process_image world fs tr1 response)"

text \<open>
  Lines 32 to 46: the choice of \<^verbatim>\<open>apod_image_url\<close>. The left side carries what is
  printed and how the script stops.
\<close>

definition select_image_url :: "json_value \<Rightarrow> (event list \<times> outcome) + json_value" where
  "select_image_url apod_api_json =
     (case py_getitem apod_api_json ''media_type'' of
        Inl err \<Rightarrow> Inl ([], Uncaught err)
      | Inr media_type \<Rightarrow>
          if media_type = JString ''image'' then
            (case py_getitem apod_api_json ''url'' of
               Inl err \<Rightarrow> Inl ([], Uncaught err)
             | Inr url \<Rightarrow> Inr url)
          else if media_type = JString ''video'' then
            (case py_getitem apod_api_json ''thumbnail_url'' of
               Inl err \<Rightarrow> Inl ([], Uncaught err)
             | Inr url \<Rightarrow> Inr url)
          else Inl ([Print ''Error Parsing APOD API JSON''], SysExit 1))"

text \<open>Lines 16 to 18: the f-string; an unset variable is rendered \<^verbatim>\<open>None\<close>.\<close>

definition apod_api_url :: "env \<Rightarrow> string" where
  "apod_api_url world =
     ''https://api.nasa.gov/planetary/apod?api_key=''
       @ (case getenv world ''APOD_API_KEY'' of None \<Rightarrow> ''None'' | Some apod_api_key \<Rightarrow> apod_api_key)
       @ ''&thumbs=True''"

definition main :: "env \<Rightarrow> filesystem \<Rightarrow> run" where
  "main world fs =
     (let tr = [Getenv ''APOD_API_KEY'', HttpGet (JString (apod_api_url world))]
      in case requests_get world 0 (JString (apod_api_url world)) of
           Inl err \<Rightarrow> finish tr fs (Uncaught err)
         | Inr response \<Rightarrow>
             if status_code response \<noteq> 200 then
               finish
                 (tr @ [Print ''Error Contacting APOD API'',
                        Print (''Response Code: '' @ str_int (status_code response))])
                 fs (SysExit 1)
             else
               (case json response of
                  Inl err \<Rightarrow> finish (tr @ [ParseJson]) fs (Uncaught err)
                | Inr apod_api_json \<Rightarrow>
                    (case select_image_url apod_api_json of
                       Inl (prints, out) \<Rightarrow> finish (tr @ [ParseJson] @ prints) fs out
                     | Inr apod_image_url \<Rightarrow>
                         download_image world fs (tr @ [ParseJson]) apod_image_url)))"

section \<open>A sample world\<close>

text \<open>
  A world in which the metadata request answers with status \<open>meta_status\<close> and the
  document \<open>doc\<close>, the image request with status \<open>asset_status\<close>, and the downloaded
  bytes decode to an image of size \<open>dims\<close>.
\<close>

definition sample_world :: "int \<Rightarrow> json_value \<Rightarrow> int \<Rightarrow> nat \<times> nat \<Rightarrow> env" where
  "sample_world meta_status doc asset_status dims =
     \<lparr>getenv = (\<lambda>name. Some ''DEMO_KEY''),
      requests_get = (\<lambda>n url.
        if n = 0 then
          Inr \<lparr>status_code = meta_status, json = Inr doc, content = []\<rparr>
        else
          Inr \<lparr>status_code = asset_status,
               json = Inl (LibraryError ''JSONDecodeError''),
               content = [255, 216, 255]\<rparr>),
      image_open = (\<lambda>bytes. Inr \<lparr>image_size = dims, image_data = bytes\<rparr>),
      image_resize = (\<lambda>im target. Inr \<lparr>image_size = target, image_data = image_data im\<rparr>),
      image_save = (\<lambda>fs im path. None)\<rparr>"

definition image_doc :: json_value where
  "image_doc = JObject [(''media_type'', JString ''image''), (''url'', JString ''http://x/img.jpg'')]"

definition video_doc :: json_value where
  "video_doc =
     JObject [(''media_type'', JString ''video''), (''thumbnail_url'', JString ''http://x/thumb.jpg'')]"

definition other_doc :: json_value where
  "other_doc = JObject [(''media_type'', JString ''other'')]"

section \<open>Evaluating the scaler\<close>

lemmas rb_eval = round_binary64_def bit_length.simps Let_def shift_def round_half_even_def

lemma py_float_mul_int_Finite:
  "round_binary64 n 1 = Finite m2 e2 \<Longrightarrow>
   py_float_mul_int (Finite m1 e1) n =
     Inr (round_binary64 (shift (m1 * m2) (e1 + e2)) (shift 1 (- (e1 + e2))))"
  unfolding py_float_mul_int_def by (simp only: binary64.case)

text \<open>The three roundings of \<^verbatim>\<open>int((s / a) * b)\<close>, one at a time.\<close>

lemma scaled_side_steps:
  assumes "a \<noteq> 0"
    and "round_binary64 s a = Finite m1 e1"
    and "round_binary64 b 1 = Finite m2 e2"
    and "round_binary64 (shift (m1 * m2) (e1 + e2)) (shift 1 (- (e1 + e2))) = Finite m3 e3"
  shows "scaled_side s a b = Inr (shift m3 e3 div shift 1 (- e3))"
  unfolding scaled_side_def py_truediv_def
  using assms(1)
  by (simp only: assms(2) if_False binary64.case sum.case py_float_mul_int_Finite [OF assms(3)]
      assms(4) py_int_def)

section \<open>Error analysis of the roundings\<close>

lemma bit_length_bounds:
  "0 < n \<Longrightarrow> 2 ^ (bit_length n - 1) \<le> n \<and> n < 2 ^ bit_length n"
proof (induction n rule: bit_length.induct)
  case (1 n)
  show ?case
  proof (cases "n div 2 = 0")
    case True
    with "1.prems" have "n = 1" by (simp add: div_eq_0_iff)
    then show ?thesis by (simp add: bit_length.simps)
  next
    case False
    then have pos: "0 < n div 2" by simp
    from "1.IH" [OF _ pos] "1.prems"
    have ih: "2 ^ (bit_length (n div 2) - 1) \<le> n div 2" "n div 2 < 2 ^ bit_length (n div 2)"
      by auto
    have bl: "bit_length n = Suc (bit_length (n div 2))"
      using "1.prems" by (subst bit_length.simps) simp
    have blpos: "0 < bit_length (n div 2)"
      using pos by (subst bit_length.simps) simp
    then obtain k where k: "bit_length (n div 2) = Suc k"
      by (cases "bit_length (n div 2)") auto
    from ih k have "2 * 2 ^ k \<le> n" "n < 2 * 2 ^ Suc k" by auto
    then show ?thesis by (simp add: bl k)
  qed
qed

lemma shift_ratio:
  "0 < q \<Longrightarrow> real (shift p (- e)) / real (shift q e) = real p / real q * 2 powi (- e)"
proof (cases "0 \<le> e")
  case True
  then have "(2::real) powi (- e) = 1 / 2 ^ nat e"
    by (simp add: power_int_minus_divide power_int_nonneg_exp)
  moreover from True have "nat (- e) = 0" by simp
  ultimately show ?thesis by (simp add: shift_def)
next
  case False
  then have "(2::real) powi (- e) = 2 ^ nat (- e)"
    by (simp add: power_int_nonneg_exp)
  moreover from False have "nat e = 0" by simp
  ultimately show ?thesis by (simp add: shift_def)
qed

lemma round_half_even_error:
  assumes "0 < q"
  shows "\<bar>real (round_half_even p q) - real p / real q\<bar> \<le> 1 / 2"
proof -
  define f r where "f = p div q" and "r = p mod q"
  have p: "real p = real q * real f + real r"
    unfolding f_def r_def by (metis mult_div_mod_eq of_nat_add of_nat_mult)
  have rq: "r < q" unfolding r_def using assms by simp
  have quot: "real p / real q = real f + real r / real q"
    using assms by (simp add: p field_simps)
  have a: "2 * r < q \<Longrightarrow> real r / real q \<le> 1 / 2"
    using assms by (simp add: field_simps)
  have b: "q \<le> 2 * r \<Longrightarrow> 1 / 2 \<le> real r / real q"
  proof -
    assume "q \<le> 2 * r"
    then have "real q \<le> 2 * real r" by (metis of_nat_le_iff of_nat_mult of_nat_numeral)
    then show ?thesis using assms by (simp add: field_simps)
  qed
  have c: "real r / real q \<le> 1" using rq assms by (simp add: field_simps)
  have d: "0 \<le> real r / real q" by simp
  have e: "\<not> 2 * r < q \<Longrightarrow> \<not> q < 2 * r \<Longrightarrow> real r / real q = 1 / 2"
  proof -
    assume "\<not> 2 * r < q" "\<not> q < 2 * r"
    then have "q = 2 * r" by simp
    then have "real q = 2 * real r" by simp
    then show ?thesis using assms by (simp add: field_simps)
  qed
  show ?thesis
    unfolding round_half_even_def Let_def f_def [symmetric] r_def [symmetric] quot
    using a b c d e by (auto simp: abs_le_iff)
qed

lemma py_int_floor: "py_int (Finite m e) = Inr (nat \<lfloor>real m * 2 powi e\<rfloor>)"
proof (cases "0 \<le> e")
  case True
  then have "real m * 2 powi e = real (m * 2 ^ nat e)"
    by (simp add: power_int_nonneg_exp)
  then have "nat \<lfloor>real m * 2 powi e\<rfloor> = m * 2 ^ nat e"
    by (metis floor_of_nat nat_int)
  moreover from True have "nat (- e) = 0" by simp
  ultimately show ?thesis by (simp add: py_int_def shift_def)
next
  case False
  then have "(2::real) powi e = 1 / 2 ^ nat (- e)"
    by (metis power_int_minus_divide power_int_nonneg_exp minus_minus neg_0_le_iff_le linear)
  then have "real m * 2 powi e = real m / real (2 ^ nat (- e))" by simp
  then have "\<lfloor>real m * 2 powi e\<rfloor> = int (m div 2 ^ nat (- e))"
    by (simp only: floor_divide_of_nat_eq)
  moreover from False have "nat e = 0" by simp
  ultimately show ?thesis by (simp add: py_int_def shift_def)
qed


lemma bit_length_real:
  assumes "0 < n"
  shows "2 powi (int (bit_length n) - 1) \<le> real n" and "real n < 2 powi int (bit_length n)"
proof -
  from bit_length_bounds [OF assms]
  have lo: "2 ^ (bit_length n - 1) \<le> n" and hi: "n < 2 ^ bit_length n" by auto
  have pos: "0 < bit_length n" using assms by (subst bit_length.simps) simp
  then have "int (bit_length n) - 1 = int (bit_length n - 1)" by simp
  then have "(2::real) powi (int (bit_length n) - 1) = 2 ^ (bit_length n - 1)"
    by (simp only: power_int_of_nat)
  also have "\<dots> = real (2 ^ (bit_length n - 1))" by simp
  also have "\<dots> \<le> real n" using lo by (simp only: of_nat_le_iff)
  finally show "2 powi (int (bit_length n) - 1) \<le> real n" .
  have "real n < real (2 ^ bit_length n)" using hi by (simp only: of_nat_less_iff)
  then show "real n < 2 powi int (bit_length n)" by simp
qed

text \<open>
  The exponent chosen by \<open>round_binary64\<close> puts the scaled quotient in
  \<open>[2 ^ 52, 2 ^ 53)\<close>: the mantissa has 53 bits.
\<close>

lemma binade:
  assumes "0 < p" "0 < q"
  defines "t \<equiv> int (bit_length p) - int (bit_length q) - 53"
  defines "n \<equiv> (if 2 ^ 53 * shift q t \<le> shift p (- t) then t + 1 else t)"
  shows "2 ^ 52 \<le> real p / real q * 2 powi (- n) \<and> real p / real q * 2 powi (- n) < 2 ^ 53"
proof -
  define c :: real where "c = 2 powi (- t)"
  define X where "X = real p / real q * c"
  have cpos: "0 < c" by (simp add: c_def)
  have rq: "0 < real q" using assms by simp
  note bp = bit_length_real [OF assms(1)] and bq = bit_length_real [OF assms(2)]
  have "(2::real) powi (int (bit_length q) + 52) = 2 powi (int (bit_length p) - 1) * c"
    unfolding c_def t_def by (subst power_int_add [symmetric]) (simp_all add: algebra_simps)
  also have "\<dots> \<le> real p * c" using bp(1) cpos by simp
  finally have "2 powi (int (bit_length q) + 52) \<le> real p * c" .
  moreover have "(2::real) powi (int (bit_length q) + 52) = 2 powi int (bit_length q) * 2 ^ 52"
    by (subst power_int_add) simp_all
  moreover have "real q * 2 ^ 52 < 2 powi int (bit_length q) * 2 ^ 52"
    using bq(2) by simp
  ultimately have "real q * 2 ^ 52 < real p * c" by linarith
  then have lo: "2 ^ 52 < X" using rq by (simp add: X_def field_simps)
  have "real p * c < 2 powi int (bit_length p) * c" using bp(2) cpos by simp
  also have "\<dots> = 2 powi (int (bit_length q) - 1 + 54)"
    unfolding c_def t_def by (subst power_int_add [symmetric]) (simp_all add: algebra_simps)
  also have "\<dots> = 2 powi (int (bit_length q) - 1) * 2 ^ 54"
    by (subst power_int_add) simp_all
  also have "\<dots> \<le> real q * 2 ^ 54" using bq(1) by simp
  finally have "real p * c < real q * 2 ^ 54" .
  then have hi: "X < 2 ^ 54" using rq by (simp add: X_def field_simps)
  have sq: "0 < shift q t" using assms by (simp add: shift_def)
  have "real (shift p (- t)) / real (shift q t) = X"
    unfolding X_def c_def by (rule shift_ratio [OF assms(2)])
  then have cond: "2 ^ 53 * shift q t \<le> shift p (- t) \<longleftrightarrow> 2 ^ 53 \<le> X"
  proof -
    assume eq: "real (shift p (- t)) / real (shift q t) = X"
    have "2 ^ 53 * shift q t \<le> shift p (- t) \<longleftrightarrow> real (2 ^ 53 * shift q t) \<le> real (shift p (- t))"
      by (simp only: of_nat_le_iff)
    also have "\<dots> \<longleftrightarrow> 2 ^ 53 * real (shift q t) \<le> real (shift p (- t))" by simp
    also have "\<dots> \<longleftrightarrow> 2 ^ 53 \<le> real (shift p (- t)) / real (shift q t)"
      using sq by (simp add: field_simps)
    finally show ?thesis by (simp only: eq)
  qed
  show ?thesis
  proof (cases "2 ^ 53 \<le> X")
    case True
    with cond have "2 ^ 53 * shift q t \<le> shift p (- t)" by blast
    then have n: "n = t + 1" by (simp only: n_def if_True)
    have h: "(2::real) powi (- n) = c * 2 powi (- 1)"
      unfolding n c_def by (subst power_int_add [symmetric]) simp_all
    have "real p / real q * 2 powi (- n) = real p / real q * c * 2 powi (- 1)"
      by (simp only: h mult.assoc)
    also have "\<dots> = X / 2" by (simp add: X_def)
    finally have Y: "real p / real q * 2 powi (- n) = X / 2" .
    have "2 ^ 52 \<le> X / 2" using True by simp
    moreover have "X / 2 < 2 ^ 53" using hi by simp
    ultimately show ?thesis unfolding Y by (rule conjI)
  next
    case False
    with cond have "\<not> 2 ^ 53 * shift q t \<le> shift p (- t)" by blast
    then have n: "n = t" by (simp only: n_def if_False)
    then have Y: "real p / real q * 2 powi (- n) = X" by (simp only: X_def c_def)
    have "2 ^ 52 \<le> X" using lo by simp
    moreover have "X < 2 ^ 53" using False by simp
    ultimately show ?thesis unfolding Y by (rule conjI)
  qed
qed

text \<open>
  Away from overflow and from the subnormal range, rounding changes a value by at most
  the fraction \<open>2 ^ - 53\<close> of it.
\<close>

lemma round_binary64_error:
  assumes "0 < p" "0 < q"
    and lo: "1 / 2 ^ 64 \<le> real p / real q" and hi: "real p / real q < 2 ^ 64"
  shows "\<exists>m e. round_binary64 p q = Finite m e \<and>
           \<bar>real m * 2 powi e - real p / real q\<bar> \<le> real p / real q / 2 ^ 53"
proof -
  define t where "t = int (bit_length p) - int (bit_length q) - 53"
  define n where "n = (if 2 ^ 53 * shift q t \<le> shift p (- t) then t + 1 else t)"
  define x where "x = real p / real q"
  define X where "X = x * 2 powi (- n)"
  have "2 ^ 52 \<le> x * 2 powi (- n) \<and> x * 2 powi (- n) < 2 ^ 53"
    unfolding x_def n_def t_def by (rule binade [OF assms(1,2)])
  then have X: "2 ^ 52 \<le> X" "X < 2 ^ 53"
    by (simp_all only: X_def)
  have xpos: "0 < x" using assms(1,2) by (simp add: x_def)
  have n_lo: "- 117 < n"
  proof (rule ccontr)
    assume "\<not> - 117 < n"
    then have "(117::int) \<le> - n" by simp
    then have "(2::real) powi 117 \<le> 2 powi (- n)" by (rule power_int_increasing) simp
    then have "x * 2 powi 117 \<le> X" using xpos by (simp add: X_def)
    moreover have "1 / 2 ^ 64 * 2 powi 117 \<le> x * 2 powi 117"
      unfolding x_def by (rule mult_right_mono [OF lo]) simp
    moreover have "1 / 2 ^ 64 * 2 powi 117 = (2::real) ^ 53" by simp
    ultimately show False using X(2) by linarith
  qed
  have n_hi: "n < 12"
  proof (rule ccontr)
    assume "\<not> n < 12"
    then have "- n \<le> (- 12::int)" by simp
    then have "(2::real) powi (- n) \<le> 2 powi (- 12)" by (rule power_int_increasing) simp
    then have "X \<le> x * 2 powi (- 12)" using xpos by (simp add: X_def)
    moreover have "x * 2 powi (- 12) < 2 ^ 64 * 2 powi (- 12)"
      unfolding x_def by (rule mult_strict_right_mono [OF hi]) simp
    moreover have "2 ^ 64 * 2 powi (- 12) = (2::real) ^ 52" by simp
    ultimately show False using X(1) by linarith
  qed
  define m where "m = round_half_even (shift p (- n)) (shift q n)"
  have e: "max n (- 1074) = n" using n_lo by simp
  have rb: "round_binary64 p q = Finite m n"
    unfolding round_binary64_def Let_def
    unfolding t_def [symmetric]
    unfolding n_def [symmetric]
    unfolding e
    using assms(1) n_hi by (simp add: m_def)
  have sq: "0 < shift q n" using assms(2) by (simp add: shift_def)
  have "\<bar>real m - real (shift p (- n)) / real (shift q n)\<bar> \<le> 1 / 2"
    unfolding m_def by (rule round_half_even_error [OF sq])
  then have mX: "\<bar>real m - X\<bar> \<le> 1 / 2"
    by (simp only: shift_ratio [OF assms(2)] X_def x_def)
  define c :: real where "c = 2 powi n"
  have cpos: "0 < c" by (simp add: c_def)
  have "2 powi (- n) * c = (1::real)"
    unfolding c_def by (subst power_int_add [symmetric]) simp_all
  then have Xc: "X * c = x" by (simp add: X_def mult.assoc)
  have "\<bar>real m * c - x\<bar> = \<bar>real m - X\<bar> * c"
    using cpos by (simp add: Xc [symmetric] left_diff_distrib [symmetric] abs_mult)
  also have "\<dots> \<le> 1 / 2 * c" using mX cpos by (simp only: mult_right_mono less_imp_le)
  also have "\<dots> \<le> x / 2 ^ 53"
  proof -
    have "2 ^ 52 * c \<le> X * c" using X(1) cpos by (simp only: mult_right_mono less_imp_le)
    then show ?thesis by (simp add: Xc)
  qed
  finally have "\<bar>real m * 2 powi n - real p / real q\<bar> \<le> real p / real q / 2 ^ 53"
    by (simp add: c_def x_def)
  with rb show ?thesis by blast
qed


lemma rel_error_bounds:
  fixes v x u :: real
  assumes "\<bar>v - x\<bar> \<le> x / 2 ^ 53" and "u = 1 / 2 ^ 53"
  shows "x * (1 - u) \<le> v" and "v \<le> x * (1 + u)"
proof -
  have eq: "x / 2 ^ 53 = x * u" by (simp add: assms(2))
  have "\<bar>v - x\<bar> \<le> x * u" using assms(1) by (simp only: eq)
  then show "x * (1 - u) \<le> v" and "v \<le> x * (1 + u)"
    by (simp_all add: abs_le_iff algebra_simps)
qed

lemma three_roundings:
  fixes x y v1 v2 r :: real
  assumes x: "0 \<le> x" and y: "0 \<le> y"
    and v1: "\<bar>v1 - x\<bar> \<le> x / 2 ^ 53"
    and v2: "\<bar>v2 - y\<bar> \<le> y / 2 ^ 53"
    and r: "\<bar>r - v1 * v2\<bar> \<le> v1 * v2 / 2 ^ 53"
  shows "\<bar>r - x * y\<bar> \<le> x * y / 2 ^ 51"
proof -
  define u :: real where "u = 1 / 2 ^ 53"
  have u: "0 \<le> 1 - u" "0 \<le> 1 + u" by (simp_all add: u_def)
  note b1 = rel_error_bounds [OF v1 u_def] and b2 = rel_error_bounds [OF v2 u_def]
    and b3 = rel_error_bounds [OF r u_def]
  have v1_pos: "0 \<le> v1" using b1(1) x u(1) by (meson mult_nonneg_nonneg order_trans)
  have v2_pos: "0 \<le> v2" using b2(1) y u(1) by (meson mult_nonneg_nonneg order_trans)
  have xy: "0 \<le> x * y" using x y by simp
  have up: "v1 * v2 \<le> (x * (1 + u)) * (y * (1 + u))"
    using b1(2) b2(2) v2_pos x u(2) by (intro mult_mono) simp_all
  have dn: "(x * (1 - u)) * (y * (1 - u)) \<le> v1 * v2"
    using b1(1) b2(1) v1_pos y u(1) by (intro mult_mono) simp_all
  have "r \<le> v1 * v2 * (1 + u)" by (rule b3(2))
  also have "\<dots> \<le> (x * (1 + u)) * (y * (1 + u)) * (1 + u)"
    using up u(2) by (rule mult_right_mono)
  also have "\<dots> = x * y * ((1 + u) * (1 + u) * (1 + u))" by (simp only: ac_simps)
  also have "\<dots> \<le> x * y * (1 + 1 / 2 ^ 51)"
  proof (rule mult_left_mono [OF _ xy])
    show "(1 + u) * (1 + u) * (1 + u) \<le> 1 + 1 / 2 ^ 51" by (simp add: u_def)
  qed
  finally have hi: "r \<le> x * y * (1 + 1 / 2 ^ 51)" .
  have "x * y * (1 - 1 / 2 ^ 51) \<le> x * y * ((1 - u) * (1 - u) * (1 - u))"
  proof (rule mult_left_mono [OF _ xy])
    show "1 - 1 / 2 ^ 51 \<le> (1 - u) * (1 - u) * (1 - u)" by (simp add: u_def)
  qed
  also have "\<dots> = (x * (1 - u)) * (y * (1 - u)) * (1 - u)" by (simp only: ac_simps)
  also have "\<dots> \<le> v1 * v2 * (1 - u)" using dn u(1) by (rule mult_right_mono)
  also have "\<dots> \<le> r" by (rule b3(1))
  finally have lo: "x * y * (1 - 1 / 2 ^ 51) \<le> r" .
  define w where "w = x * y"
  define d where "d = w / 2 ^ 51"
  have "w - d \<le> r"
    using lo by (simp only: w_def d_def right_diff_distrib mult_1_right times_divide_eq_right)
  moreover have "r \<le> w + d"
    using hi by (simp only: w_def d_def distrib_left mult_1_right times_divide_eq_right)
  ultimately have "\<bar>r - w\<bar> \<le> d" by (simp only: abs_le_iff) linarith
  then show ?thesis by (simp only: w_def d_def)
qed


lemma coarse_bounds:
  fixes v x :: real
  assumes "\<bar>v - x\<bar> \<le> x / 2 ^ 53" and "0 \<le> x"
  shows "x / 2 \<le> v" and "v \<le> 2 * x"
proof -
  have "x / 2 ^ 53 \<le> x / 2" using assms(2) by (intro divide_left_mono) simp_all
  with assms(1) have "\<bar>v - x\<bar> \<le> x / 2" by linarith
  then show "x / 2 \<le> v" and "v \<le> 2 * x" using assms(2) by linarith+
qed

text \<open>
  For sides below \<open>2 ^ 31\<close> the three roundings of \<^verbatim>\<open>int((s / a) * b)\<close> stay in
  the normal range, and the float that is truncated is within the fraction \<open>2 ^ - 51\<close>
  of the exact value \<open>s * b / a\<close>.
\<close>

lemma scaled_side_approx:
  assumes s: "0 < s" "s \<le> 320" and b: "0 < b" "b < a" and a: "a < 2 ^ 31"
  shows "\<exists>r. scaled_side s a b = Inr (nat \<lfloor>r\<rfloor>) \<and>
           \<bar>r - real s / real a * real b\<bar> \<le> real s / real a * real b / 2 ^ 51"
proof -
  have apos: "0 < a" using b by simp
  have ra: "0 < real a" "real a \<le> 2 ^ 31"
    using apos a by (simp_all add: of_nat_less_numeral_power_cancel_iff less_imp_le)
  have rs: "1 \<le> real s" "real s \<le> 320" using s by simp_all
  have rb: "1 \<le> real b" "real b \<le> 2 ^ 31"
    using b a by (simp_all add: of_nat_less_numeral_power_cancel_iff less_imp_le)
  define x where "x = real s / real a"
  have x_lo: "1 / 2 ^ 31 \<le> x" unfolding x_def using rs(1) ra by (intro frac_le) simp_all
  have x_hi: "x \<le> 320"
  proof -
    have "real s / real a \<le> 320 / 1" using rs(2) apos by (intro frac_le) simp_all
    then show ?thesis by (simp add: x_def)
  qed
  have x_pos: "0 \<le> x" unfolding x_def by simp
  have "\<exists>m e. round_binary64 s a = Finite m e \<and>
          \<bar>real m * 2 powi e - real s / real a\<bar> \<le> real s / real a / 2 ^ 53"
  proof (rule round_binary64_error [OF s(1) apos])
    have "1 / 2 ^ 64 \<le> (1::real) / 2 ^ 31" by simp
    from this x_lo show "1 / 2 ^ 64 \<le> real s / real a" unfolding x_def by (rule order_trans)
    have "(320::real) < 2 ^ 64" by simp
    with x_hi show "real s / real a < 2 ^ 64" unfolding x_def by (rule le_less_trans)
  qed
  then obtain m1 e1 where d: "round_binary64 s a = Finite m1 e1"
    and d_err: "\<bar>real m1 * 2 powi e1 - x\<bar> \<le> x / 2 ^ 53"
    unfolding x_def by blast
  have "\<exists>m e. round_binary64 b 1 = Finite m e \<and>
          \<bar>real m * 2 powi e - real b / real 1\<bar> \<le> real b / real 1 / 2 ^ 53"
  proof (rule round_binary64_error [OF b(1)])
    show "0 < (1::nat)" by simp
    have "1 / 2 ^ 64 \<le> (1::real)" by simp
    with rb(1) show "1 / 2 ^ 64 \<le> real b / real 1" by simp
    have "(2::real) ^ 31 < 2 ^ 64" by simp
    with rb(2) show "real b / real 1 < 2 ^ 64" by simp
  qed
  then obtain m2 e2 where f: "round_binary64 b 1 = Finite m2 e2"
    and f_err: "\<bar>real m2 * 2 powi e2 - real b\<bar> \<le> real b / 2 ^ 53"
    by auto
  define v1 where "v1 = real m1 * 2 powi e1"
  define v2 where "v2 = real m2 * 2 powi e2"
  have b_pos: "0 \<le> real b" by simp
  note c1 = coarse_bounds [OF d_err [folded v1_def] x_pos]
    and c2 = coarse_bounds [OF f_err [folded v2_def] b_pos]
  have v1_lo: "1 / 2 ^ 32 \<le> v1" using c1(1) x_lo by simp
  have v1_hi: "v1 \<le> 640" using c1(2) x_hi by simp
  have v2_lo: "1 / 2 \<le> v2" using c2(1) rb(1) by simp
  have v2_hi: "v2 \<le> 2 ^ 32" using c2(2) rb(2) by simp
  have v1_pos: "0 < v1" using v1_lo by (rule less_le_trans [rotated]) simp
  have v2_pos: "0 < v2" using v2_lo by (rule less_le_trans [rotated]) simp
  have m1: "0 < m1" using v1_pos by (cases "m1 = 0") (simp_all add: v1_def)
  have m2: "0 < m2" using v2_pos by (cases "m2 = 0") (simp_all add: v2_def)
  define P where "P = shift (m1 * m2) (e1 + e2)"
  define Q where "Q = shift 1 (- (e1 + e2))"
  have P: "0 < P" using m1 m2 by (simp add: P_def shift_def)
  have Q: "0 < Q" by (simp add: Q_def shift_def)
  have "real (shift (m1 * m2) (- (- (e1 + e2)))) / real (shift 1 (- (e1 + e2)))
          = real (m1 * m2) / real 1 * 2 powi (- (- (e1 + e2)))"
    by (rule shift_ratio) simp
  then have "real P / real Q = real (m1 * m2) * 2 powi (e1 + e2)"
    by (simp only: P_def Q_def minus_minus of_nat_1 div_by_1)
  also have "\<dots> = v1 * v2"
    unfolding v1_def v2_def by (subst power_int_add) simp_all
  finally have PQ: "real P / real Q = v1 * v2" .
  have "\<exists>m e. round_binary64 P Q = Finite m e \<and>
          \<bar>real m * 2 powi e - real P / real Q\<bar> \<le> real P / real Q / 2 ^ 53"
  proof (rule round_binary64_error [OF P Q])
    have "1 / 2 ^ 32 * (1 / 2) \<le> v1 * v2"
      using v1_lo v2_lo by (intro mult_mono) simp_all
    moreover have "1 / 2 ^ 64 \<le> (1::real) / 2 ^ 32 * (1 / 2)" by simp
    ultimately show "1 / 2 ^ 64 \<le> real P / real Q" unfolding PQ by linarith
    have "v1 * v2 \<le> 640 * 2 ^ 32"
      using v1_hi v2_hi v2_pos by (intro mult_mono) simp_all
    moreover have "(640::real) * 2 ^ 32 < 2 ^ 64" by simp
    ultimately show "real P / real Q < 2 ^ 64" unfolding PQ by linarith
  qed
  then obtain m3 e3 where y: "round_binary64 P Q = Finite m3 e3"
    and y_err: "\<bar>real m3 * 2 powi e3 - v1 * v2\<bar> \<le> v1 * v2 / 2 ^ 53"
    unfolding PQ by blast
  have quot: "py_truediv s a = Inr (Finite m1 e1)"
    using apos by (simp add: py_truediv_def d)
  have prod: "py_float_mul_int (Finite m1 e1) b = Inr (Finite m3 e3)"
    unfolding py_float_mul_int_def f
    by (simp only: binary64.case y [unfolded P_def Q_def])
  have "scaled_side s a b = Inr (nat \<lfloor>real m3 * 2 powi e3\<rfloor>)"
    unfolding scaled_side_def quot by (simp add: prod py_int_floor)
  moreover have "\<bar>real m3 * 2 powi e3 - x * real b\<bar> \<le> x * real b / 2 ^ 51"
    using x_pos b_pos d_err [folded v1_def] f_err [folded v2_def] y_err
    by (rule three_roundings)
  ultimately show ?thesis unfolding x_def by blast
qed


text \<open>
  When the exact value is not a whole number it is at least \<open>1 / a\<close> away from one,
  farther than the rounding error reaches: the truncation is the floor of the exact value.
\<close>

lemma scaled_side_floor:
  assumes s: "0 < s" "s \<le> 320" and ba: "b < a" and a: "a < 2 ^ 31" and nd: "\<not> a dvd s * b"
  shows "scaled_side s a b = Inr (s * b div a)"
proof -
  have b: "0 < b" using nd by (cases "b = 0") simp_all
  have apos: "0 < real a" using ba by simp
  define w where "w = real s / real a * real b"
  from scaled_side_approx [OF s b ba a]
  obtain r where sc: "scaled_side s a b = Inr (nat \<lfloor>r\<rfloor>)"
    and err: "\<bar>r - w\<bar> \<le> w / 2 ^ 51"
    unfolding w_def by blast
  define k m where "k = s * b div a" and "m = s * b mod a"
  have "m \<noteq> 0" using nd unfolding m_def by (simp only: mod_eq_0_iff_dvd not_False_eq_True)
  then have m_pos: "0 < m" by simp
  have m_less: "m < a" using ba by (simp add: m_def)
  have "s * b = a * k + m" by (simp add: k_def m_def)
  then have "real s * real b = real a * real k + real m"
    by (metis of_nat_add of_nat_mult)
  then have w: "w = real k + real m / real a"
    using apos by (simp add: w_def field_simps)
  have inv_a: "1 / 2 ^ 31 \<le> 1 / real a"
  proof (rule divide_left_mono)
    show "real a \<le> 2 ^ 31" using a by (simp add: of_nat_less_numeral_power_cancel_iff less_imp_le)
    show "0 < 2 ^ 31 * real a" using apos by simp
  qed simp
  have "real s / real a * real b \<le> 320 * 1"
  proof -
    have "real b / real a \<le> 1" using ba apos by simp
    moreover have "real s \<le> 320" using s by simp
    ultimately have "real s * (real b / real a) \<le> 320 * 1" by (intro mult_mono) simp_all
    then show ?thesis by simp
  qed
  then have "w / 2 ^ 51 \<le> 320 / 2 ^ 51" unfolding w_def by (intro divide_right_mono) simp_all
  moreover have "(320::real) / 2 ^ 51 < 1 / 2 ^ 31" by simp
  ultimately have close: "\<bar>r - w\<bar> < 1 / real a" using err inv_a by linarith
  have frac_lo: "1 / real a \<le> real m / real a"
    using m_pos apos by (intro divide_right_mono) simp_all
  have "Suc m \<le> a" using m_less by simp
  then have "real (Suc m) \<le> real a" by (simp only: of_nat_le_iff)
  then have "real m + 1 \<le> real a" by simp
  then have "(real m + 1) / real a \<le> real a / real a" using apos by (intro divide_right_mono) simp_all
  then have frac_hi: "real m / real a + 1 / real a \<le> 1" using apos by (simp add: add_divide_distrib)
  have "real k < r" "r < real k + 1" using close frac_lo frac_hi unfolding w by linarith+
  then have "\<lfloor>r\<rfloor> = int k" by (intro floor_unique) simp_all
  then show ?thesis by (simp add: sc k_def)
qed

lemma scaled_side_zero:
  assumes s: "0 < s" "s \<le> 320" and sb: "s * b < a" and a: "a < 2 ^ 31"
  shows "scaled_side s a b = Inr 0"
proof (cases "b = 0")
  case True
  have apos: "0 < a" using sb by simp
  have "\<exists>m e. round_binary64 s a = Finite m e \<and>
          \<bar>real m * 2 powi e - real s / real a\<bar> \<le> real s / real a / 2 ^ 53"
  proof (rule round_binary64_error [OF s(1) apos])
    have "1 / 2 ^ 31 \<le> real s / real a"
      using s(1) apos a
      by (intro frac_le) (simp_all add: of_nat_less_numeral_power_cancel_iff less_imp_le)
    moreover have "1 / 2 ^ 64 \<le> (1::real) / 2 ^ 31" by simp
    ultimately show "1 / 2 ^ 64 \<le> real s / real a" by linarith
    have "real s / real a \<le> 320 / 1" using s(2) apos by (intro frac_le) simp_all
    moreover have "(320::real) / 1 < 2 ^ 64" by simp
    ultimately show "real s / real a < 2 ^ 64" by linarith
  qed
  then obtain m1 e1 where d: "round_binary64 s a = Finite m1 e1" by blast
  have quot: "py_truediv s a = Inr (Finite m1 e1)"
    using apos by (simp add: py_truediv_def d)
  have zero: "round_binary64 0 q = Finite 0 0" for q
    by (simp add: round_binary64_def)
  have prod: "py_float_mul_int (Finite m1 e1) 0 = Inr (Finite 0 0)"
    unfolding py_float_mul_int_def zero by (simp add: shift_def zero)
  show ?thesis
    unfolding True scaled_side_def quot by (simp add: prod py_int_def shift_def)
next
  case False
  then have b: "0 < b" by simp
  have "1 * b \<le> s * b" using s(1) by (intro mult_le_mono) simp_all
  then have "b \<le> s * b" by (simp only: mult_1)
  then have ba: "b < a" using sb by (rule le_less_trans)
  have nd: "\<not> a dvd s * b"
  proof
    assume "a dvd s * b"
    moreover have "0 < s * b" using s(1) b by simp
    ultimately have "a \<le> s * b" by (rule dvd_imp_le)
    with sb show False by simp
  qed
  from scaled_side_floor [OF s ba a nd] sb show ?thesis by simp
qed

text \<open>
  For sides below \<open>2 ^ 31\<close> the expression raises nothing: it always yields a number of
  pixels, whether or not the exact value is a whole number.
\<close>

lemma scaled_side_returns:
  assumes s: "0 < s" "s \<le> 320" and ba: "b < a" and a: "a < 2 ^ 31"
  shows "\<exists>h. scaled_side s a b = Inr h"
proof (cases "b = 0")
  case True
  with ba have "s * b < a" by simp
  from scaled_side_zero [OF s this a] show ?thesis by blast
next
  case False
  then have "0 < b" by simp
  from scaled_side_approx [OF s this ba a] show ?thesis by blast
qed

section \<open>Facts about the stages of the script\<close>

lemma div_bounds:
  fixes n a :: nat
  assumes "0 < a" "\<not> a dvd n"
  shows "n div a * a < n" and "n < (n div a + 1) * a"
proof -
  have "n mod a \<noteq> 0" using assms(2) by (simp only: mod_eq_0_iff_dvd not_False_eq_True)
  then have m: "0 < n mod a" by simp
  have eq: "n div a * a + n mod a = n" by simp
  from m eq show "n div a * a < n" by linarith
  have "n mod a < a" using assms(1) by simp
  with eq have "n < n div a * a + a" by linarith
  then show "n < (n div a + 1) * a" by simp
qed

lemma requested_urls_append:
  "requested_urls (xs @ ys) = requested_urls xs @ requested_urls ys"
  by (induction xs rule: requested_urls.induct) simp_all

lemma trace_finish: "trace (finish tr fs out) = tr"
  and files_finish: "files (finish tr fs out) = fs"
  and outcome_finish: "outcome (finish tr fs out) = out"
  by (simp_all add: finish_def)

lemmas finish_simps = trace_finish files_finish outcome_finish

lemma requested_urls_process_image:
  "requested_urls (trace (process_image world fs tr response)) = requested_urls tr"
  by (simp add: process_image_def Let_def finish_simps requested_urls_append
      split: sum.splits prod.splits option.splits)

lemma requested_urls_download_image:
  "requested_urls (trace (download_image world fs tr url)) = requested_urls tr @ [url]"
  by (simp add: download_image_def Let_def finish_simps requested_urls_append
      requested_urls_process_image split: sum.splits)





lemmas world_eval = sample_world_def apod_api_url_def image_doc_def video_doc_def other_doc_def
  str_int_def str_nat.simps

section \<open>The claims\<close>

text \<open>
  C1: the output is meant to fit the \<open>320 \<times> 240\<close> screen. The wide branch scales the
  width to 320 whatever the aspect ratio, so a \<open>1280 \<times> 1024\<close> bitmap, wider than tall but
  less so than the screen, is resized to \<open>320 \<times> 256\<close>: the height exceeds 240.
\<close>

theorem scale_1280_1024: "scale 1280 1024 = Inr (320, 256) \<and> \<not> 256 \<le> screen_height"
proof -
  have d: "round_binary64 320 1280 = Finite 4503599627370496 (- 54)"
    by (simp add: rb_eval)
  have f: "round_binary64 1024 1 = Finite 4503599627370496 (- 42)"
    by (simp add: rb_eval)
  have y: "round_binary64 (shift (4503599627370496 * 4503599627370496) (- 54 + - 42))
             (shift 1 (- (- 54 + - 42))) = Finite 4503599627370496 (- 44)"
    by (simp add: rb_eval)
  have "(1280::nat) \<noteq> 0" by simp
  from scaled_side_steps [OF this d f y] have "scaled_side 320 1280 1024 = Inr 256"
    by (simp add: shift_def)
  then show ?thesis by (simp add: scale_def screen_width_def screen_height_def)
qed

text \<open>
  C2: the scaled side is meant to be the floor of the exact value \<open>320 * ih / iw\<close>. On a
  \<open>1232 \<times> 924\<close> bitmap the exact value is 240, the binary64 product falls just below
  it, and the truncation gives 239.
\<close>

theorem scale_1232_924:
  "scale 1232 924 = Inr (320, 239) \<and> 320 * 924 div 1232 = (240::nat)"
proof -
  have d: "round_binary64 320 1232 = Finite 4679064547917398 (- 54)"
    by (simp add: rb_eval)
  have f: "round_binary64 924 1 = Finite 8127589952520192 (- 43)"
    by (simp add: rb_eval)
  have y: "round_binary64 (shift (4679064547917398 * 8127589952520192) (- 54 + - 43))
             (shift 1 (- (- 54 + - 43))) = Finite 8444249301319679 (- 45)"
    by (simp add: rb_eval)
  have "(1232::nat) \<noteq> 0" by simp
  from scaled_side_steps [OF this d f y] have "scaled_side 320 1232 924 = Inr 239"
    by (simp add: shift_def)
  then show ?thesis by (simp add: scale_def screen_width_def)
qed

text \<open>
  C3, in the form the code satisfies: a square bitmap gives a square output. For every
  bitmap that is not square, with sides below \<open>2 ^ 31\<close>, the longer side becomes the
  screen's (320 wide if the bitmap is wider than tall, 240 high if it is taller than
  wide), whatever the other side comes to. When the side that would keep the aspect ratio
  exactly is not a whole number of pixels, the other side is that number rounded down.
  The output's aspect ratio is then close to the source's, not equal to it.
\<close>

theorem scale_one_side_rounded_down:
  assumes "image_width < 2 ^ 31" and "image_height < 2 ^ 31"
  shows "(image_width = image_height \<longrightarrow> scale image_width image_height = Inr (240, 240)) \<and>
         (image_height < image_width \<longrightarrow>
            (\<exists>scaled_height. scale image_width image_height = Inr (320, scaled_height))) \<and>
         (image_height < image_width \<and> \<not> image_width dvd 320 * image_height \<longrightarrow>
            scale image_width image_height = Inr (320, 320 * image_height div image_width) \<and>
            320 * image_height div image_width * image_width < 320 * image_height \<and>
            320 * image_height < (320 * image_height div image_width + 1) * image_width) \<and>
         (image_width < image_height \<longrightarrow>
            (\<exists>scaled_width. scale image_width image_height = Inr (scaled_width, 240))) \<and>
         (image_width < image_height \<and> \<not> image_height dvd 240 * image_width \<longrightarrow>
            scale image_width image_height = Inr (240 * image_width div image_height, 240) \<and>
            240 * image_width div image_height * image_height < 240 * image_width \<and>
            240 * image_width < (240 * image_width div image_height + 1) * image_height)"
proof (intro conjI impI)
  assume "image_width = image_height"
  then show "scale image_width image_height = Inr (240, 240)"
    by (simp add: scale_def screen_width_def screen_height_def)
next
  assume a: "image_height < image_width"
  have "\<exists>h. scaled_side 320 image_width image_height = Inr h"
    using a assms(1) by (intro scaled_side_returns) simp_all
  then obtain h where "scaled_side 320 image_width image_height = Inr h" by blast
  with a have "scale image_width image_height = Inr (320, h)"
    by (simp add: scale_def screen_width_def)
  then show "\<exists>scaled_height. scale image_width image_height = Inr (320, scaled_height)"
    by blast
next
  assume a: "image_width < image_height"
  have "\<exists>w. scaled_side 240 image_height image_width = Inr w"
    using a assms(2) by (intro scaled_side_returns) simp_all
  then obtain w where "scaled_side 240 image_height image_width = Inr w" by blast
  with a have "scale image_width image_height = Inr (w, 240)"
    by (simp add: scale_def screen_height_def)
  then show "\<exists>scaled_width. scale image_width image_height = Inr (scaled_width, 240)"
    by blast
next
  assume a: "image_height < image_width \<and> \<not> image_width dvd 320 * image_height"
  then have "scaled_side 320 image_width image_height = Inr (320 * image_height div image_width)"
    using assms(1) by (intro scaled_side_floor) simp_all
  with a show "scale image_width image_height = Inr (320, 320 * image_height div image_width)"
    by (simp add: scale_def screen_width_def)
  from a have pos: "0 < image_width" by simp
  from a div_bounds [OF pos, of "320 * image_height"]
  show "320 * image_height div image_width * image_width < 320 * image_height"
    and "320 * image_height < (320 * image_height div image_width + 1) * image_width"
    by blast+
next
  assume a: "image_width < image_height \<and> \<not> image_height dvd 240 * image_width"
  then have "scaled_side 240 image_height image_width = Inr (240 * image_width div image_height)"
    using assms(2) by (intro scaled_side_floor) simp_all
  with a show "scale image_width image_height = Inr (240 * image_width div image_height, 240)"
    by (simp add: scale_def screen_height_def)
  from a have pos: "0 < image_height" by simp
  from a div_bounds [OF pos, of "240 * image_width"]
  show "240 * image_width div image_height * image_height < 240 * image_width"
    and "240 * image_width < (240 * image_width div image_height + 1) * image_height"
    by blast+
qed

theorem scale_one_side_rounded_down_witness:
  "scale 500 500 = Inr (240, 240) \<and>
   (\<exists>scaled_height. scale 400 200 = Inr (320, scaled_height)) \<and>
   scale 3000 2000 = Inr (320, 213) \<and> 213 * 3000 < 320 * (2000::nat) \<and>
   (\<exists>scaled_width. scale 200 400 = Inr (scaled_width, 240)) \<and>
   scale 1000 1700 = Inr (141, 240) \<and> 141 * 1700 < 240 * (1000::nat)"
proof -
  have small: "(500::nat) < 2 ^ 31" "(3000::nat) < 2 ^ 31" "(2000::nat) < 2 ^ 31"
    "(1000::nat) < 2 ^ 31" "(1700::nat) < 2 ^ 31" "(400::nat) < 2 ^ 31" "(200::nat) < 2 ^ 31"
    by simp_all
  from scale_one_side_rounded_down [OF small(1) small(1)]
  have "scale 500 500 = Inr (240, 240)" by simp
  moreover from scale_one_side_rounded_down [OF small(6) small(7)]
  have "\<exists>scaled_height. scale 400 200 = Inr (320, scaled_height)" by simp
  moreover from scale_one_side_rounded_down [OF small(2) small(3)]
  have "scale 3000 2000 = Inr (320, 213) \<and> 213 * 3000 < 320 * (2000::nat)" by simp
  moreover from scale_one_side_rounded_down [OF small(7) small(6)]
  have "\<exists>scaled_width. scale 200 400 = Inr (scaled_width, 240)" by simp
  moreover from scale_one_side_rounded_down [OF small(4) small(5)]
  have "scale 1000 1700 = Inr (141, 240) \<and> 141 * 1700 < 240 * (1000::nat)" by simp
  ultimately show ?thesis by simp
qed

text \<open>
  The claim as first stated, equal aspect ratios, fails on a \<open>3000 \<times> 2000\<close> bitmap:
  the output is \<open>320 \<times> 213\<close>.
\<close>

theorem scale_3000_2000:
  "scale 3000 2000 = Inr (320, 213) \<and> 320 * 2000 \<noteq> 213 * (3000::nat)"
proof -
  have d: "round_binary64 320 3000 = Finite 7686143364045647 (- 56)"
    by (simp add: rb_eval)
  have f: "round_binary64 2000 1 = Finite 8796093022208000 (- 42)"
    by (simp add: rb_eval)
  have y: "round_binary64 (shift (7686143364045647 * 8796093022208000) (- 56 + - 42))
             (shift 1 (- (- 56 + - 42))) = Finite 7505999378950827 (- 45)"
    by (simp add: rb_eval)
  have "(3000::nat) \<noteq> 0" by simp
  from scaled_side_steps [OF this d f y] have "scaled_side 320 3000 2000 = Inr 213"
    by (simp add: shift_def)
  then show ?thesis by (simp add: scale_def screen_width_def)
qed

text \<open>
  C4: after a metadata answer with status 200 and a JSON document, the image address is
  the document's \<open>url\<close> member when \<open>media_type\<close> is \<open>image\<close>, and its
  \<open>thumbnail_url\<close> member when \<open>media_type\<close> is \<open>video\<close>; the second request of
  the run goes to that address.
\<close>

theorem main_asset_url:
  assumes "requests_get world 0 (JString (apod_api_url world)) = Inr response"
    and "status_code response = 200"
    and "json response = Inr doc"
  shows "(py_getitem doc ''media_type'' = Inr (JString ''image'') \<and>
          py_getitem doc ''url'' = Inr url \<longrightarrow>
            select_image_url doc = Inr url \<and>
            requested_urls (trace (main world fs)) = [JString (apod_api_url world), url]) \<and>
         (py_getitem doc ''media_type'' = Inr (JString ''video'') \<and>
          py_getitem doc ''thumbnail_url'' = Inr url \<longrightarrow>
            select_image_url doc = Inr url \<and>
            requested_urls (trace (main world fs)) = [JString (apod_api_url world), url])"
  using assms
  by (simp add: main_def select_image_url_def Let_def requested_urls_download_image)

theorem main_asset_url_witness:
  "select_image_url image_doc = Inr (JString ''http://x/img.jpg'') \<and>
   requested_urls (trace (main (sample_world 200 image_doc 200 (400, 200)) Map.empty)) =
     [JString ''https://api.nasa.gov/planetary/apod?api_key=DEMO_KEY&thumbs=True'',
      JString ''http://x/img.jpg''] \<and>
   select_image_url video_doc = Inr (JString ''http://x/thumb.jpg'') \<and>
   requested_urls (trace (main (sample_world 200 video_doc 200 (400, 200)) Map.empty)) =
     [JString ''https://api.nasa.gov/planetary/apod?api_key=DEMO_KEY&thumbs=True'',
      JString ''http://x/thumb.jpg'']"
proof -
  define w1 where "w1 = sample_world 200 image_doc 200 (400, 200)"
  define w2 where "w2 = sample_world 200 video_doc 200 (400, 200)"
  have r1: "requests_get w1 0 (JString (apod_api_url w1))
             = Inr \<lparr>status_code = 200, json = Inr image_doc, content = []\<rparr>"
    by (simp add: w1_def sample_world_def)
  have r2: "requests_get w2 0 (JString (apod_api_url w2))
             = Inr \<lparr>status_code = 200, json = Inr video_doc, content = []\<rparr>"
    by (simp add: w2_def sample_world_def)
  have s: "status_code \<lparr>status_code = 200, json = Inr doc, content = []\<rparr> = 200"
    and j: "json \<lparr>status_code = 200, json = Inr doc, content = []\<rparr> = Inr doc" for doc
    by simp_all
  have g1: "py_getitem image_doc ''media_type'' = Inr (JString ''image'')"
    "py_getitem image_doc ''url'' = Inr (JString ''http://x/img.jpg'')"
    by (simp_all add: image_doc_def)
  have g2: "py_getitem video_doc ''media_type'' = Inr (JString ''video'')"
    "py_getitem video_doc ''thumbnail_url'' = Inr (JString ''http://x/thumb.jpg'')"
    by (simp_all add: video_doc_def)
  from main_asset_url [OF r1 s j, of "JString ''http://x/img.jpg''" Map.empty] g1
  have "select_image_url image_doc = Inr (JString ''http://x/img.jpg'') \<and>
        requested_urls (trace (main w1 Map.empty)) =
          [JString ''https://api.nasa.gov/planetary/apod?api_key=DEMO_KEY&thumbs=True'',
           JString ''http://x/img.jpg'']"
    by (simp add: w1_def sample_world_def apod_api_url_def)
  moreover
  from main_asset_url [OF r2 s j, of "JString ''http://x/thumb.jpg''" Map.empty] g2
  have "select_image_url video_doc = Inr (JString ''http://x/thumb.jpg'') \<and>
        requested_urls (trace (main w2 Map.empty)) =
          [JString ''https://api.nasa.gov/planetary/apod?api_key=DEMO_KEY&thumbs=True'',
           JString ''http://x/thumb.jpg'']"
    by (simp add: w2_def sample_world_def apod_api_url_def)
  ultimately show ?thesis unfolding w1_def w2_def by simp
qed

text \<open>
  C5: when the metadata answer has a status other than 200, the script prints two lines,
  the second with the status code, and exits with code 1. The body is not parsed and no
  second request is made.
\<close>

theorem main_metadata_failure:
  assumes "requests_get world 0 (JString (apod_api_url world)) = Inr response"
    and "status_code response \<noteq> 200"
  shows "main world fs =
           \<lparr>trace = [Getenv ''APOD_API_KEY'', HttpGet (JString (apod_api_url world)),
                     Print ''Error Contacting APOD API'',
                     Print (''Response Code: '' @ str_int (status_code response))],
            files = fs, outcome = SysExit 1\<rparr> \<and>
         ParseJson \<notin> set (trace (main world fs)) \<and>
         requested_urls (trace (main world fs)) = [JString (apod_api_url world)]"
  using assms by (simp add: main_def Let_def finish_def)

theorem main_metadata_failure_witness:
  "main (sample_world 404 image_doc 200 (400, 200)) Map.empty =
     \<lparr>trace = [Getenv ''APOD_API_KEY'',
               HttpGet (JString ''https://api.nasa.gov/planetary/apod?api_key=DEMO_KEY&thumbs=True''),
               Print ''Error Contacting APOD API'', Print ''Response Code: 404''],
      files = Map.empty, outcome = SysExit 1\<rparr>"
proof -
  define world where "world = sample_world 404 image_doc 200 (400, 200)"
  have r: "requests_get world 0 (JString (apod_api_url world))
             = Inr \<lparr>status_code = 404, json = Inr image_doc, content = []\<rparr>"
    by (simp add: world_def sample_world_def)
  have s: "status_code \<lparr>status_code = 404, json = Inr image_doc, content = []\<rparr> \<noteq> 200"
    by simp
  from main_metadata_failure [OF r s, of Map.empty]
  have "main world Map.empty =
     \<lparr>trace = [Getenv ''APOD_API_KEY'',
               HttpGet (JString ''https://api.nasa.gov/planetary/apod?api_key=DEMO_KEY&thumbs=True''),
               Print ''Error Contacting APOD API'', Print ''Response Code: 404''],
      files = Map.empty, outcome = SysExit 1\<rparr>"
    by (simp add: world_def world_eval)
  then show ?thesis unfolding world_def .
qed

text \<open>
  C6: when the metadata step succeeds and the image download answers with a status other
  than 200, the script prints two lines, the second with the status code, and exits with
  code 1. Nothing is decoded or saved, and the files are as they were.
\<close>

theorem main_download_failure:
  assumes "requests_get world 0 (JString (apod_api_url world)) = Inr response"
    and "status_code response = 200"
    and "json response = Inr doc"
    and "select_image_url doc = Inr url"
    and "requests_get world 1 url = Inr response2"
    and "status_code response2 \<noteq> 200"
  shows "main world fs =
           \<lparr>trace = [Getenv ''APOD_API_KEY'', HttpGet (JString (apod_api_url world)), ParseJson,
                     HttpGet url, Print ''Error Downloading APOD Image'',
                     Print (''Response Code: '' @ str_int (status_code response2))],
            files = fs, outcome = SysExit 1\<rparr>"
  using assms by (simp add: main_def download_image_def Let_def finish_def)

theorem main_download_failure_witness:
  "main (sample_world 200 image_doc 500 (400, 200)) Map.empty =
     \<lparr>trace = [Getenv ''APOD_API_KEY'',
               HttpGet (JString ''https://api.nasa.gov/planetary/apod?api_key=DEMO_KEY&thumbs=True''),
               ParseJson, HttpGet (JString ''http://x/img.jpg''),
               Print ''Error Downloading APOD Image'', Print ''Response Code: 500''],
      files = Map.empty, outcome = SysExit 1\<rparr>"
proof -
  define world where "world = sample_world 200 image_doc 500 (400, 200)"
  define response2 where
    "response2 = \<lparr>status_code = 500, json = Inl (LibraryError ''JSONDecodeError''),
                   content = [255, 216, 255::nat]\<rparr>"
  have r: "requests_get world 0 (JString (apod_api_url world))
             = Inr \<lparr>status_code = 200, json = Inr image_doc, content = []\<rparr>"
    by (simp add: world_def sample_world_def)
  have s: "status_code \<lparr>status_code = 200, json = Inr image_doc, content = []\<rparr> = 200"
    and j: "json \<lparr>status_code = 200, json = Inr image_doc, content = []\<rparr> = Inr image_doc"
    by simp_all
  have u: "select_image_url image_doc = Inr (JString ''http://x/img.jpg'')"
    by (simp add: select_image_url_def image_doc_def)
  have r2: "requests_get world 1 (JString ''http://x/img.jpg'') = Inr response2"
    by (simp add: world_def sample_world_def response2_def)
  have s2: "status_code response2 \<noteq> 200" by (simp add: response2_def)
  from main_download_failure [OF r s j u r2 s2, of Map.empty]
  have "main world Map.empty =
     \<lparr>trace = [Getenv ''APOD_API_KEY'',
               HttpGet (JString ''https://api.nasa.gov/planetary/apod?api_key=DEMO_KEY&thumbs=True''),
               ParseJson, HttpGet (JString ''http://x/img.jpg''),
               Print ''Error Downloading APOD Image'', Print ''Response Code: 500''],
      files = Map.empty, outcome = SysExit 1\<rparr>"
    by (simp add: world_def response2_def world_eval)
  then show ?thesis unfolding world_def .
qed

text \<open>
  C7: when the document's \<open>media_type\<close> is neither \<open>image\<close> nor \<open>video\<close>, the
  script prints one line and exits with code 1; the only request of the run is the
  metadata request.
\<close>

theorem main_unknown_media_type:
  assumes "requests_get world 0 (JString (apod_api_url world)) = Inr response"
    and "status_code response = 200"
    and "json response = Inr doc"
    and "py_getitem doc ''media_type'' = Inr media_type"
    and "media_type \<noteq> JString ''image''"
    and "media_type \<noteq> JString ''video''"
  shows "main world fs =
           \<lparr>trace = [Getenv ''APOD_API_KEY'', HttpGet (JString (apod_api_url world)), ParseJson,
                     Print ''Error Parsing APOD API JSON''],
            files = fs, outcome = SysExit 1\<rparr> \<and>
         requested_urls (trace (main world fs)) = [JString (apod_api_url world)]"
  using assms by (simp add: main_def select_image_url_def Let_def finish_def)

theorem main_unknown_media_type_witness:
  "main (sample_world 200 other_doc 200 (400, 200)) Map.empty =
     \<lparr>trace = [Getenv ''APOD_API_KEY'',
               HttpGet (JString ''https://api.nasa.gov/planetary/apod?api_key=DEMO_KEY&thumbs=True''),
               ParseJson, Print ''Error Parsing APOD API JSON''],
      files = Map.empty, outcome = SysExit 1\<rparr>"
proof -
  define world where "world = sample_world 200 other_doc 200 (400, 200)"
  have r: "requests_get world 0 (JString (apod_api_url world))
             = Inr \<lparr>status_code = 200, json = Inr other_doc, content = []\<rparr>"
    by (simp add: world_def sample_world_def)
  have s: "status_code \<lparr>status_code = 200, json = Inr other_doc, content = []\<rparr> = 200"
    and j: "json \<lparr>status_code = 200, json = Inr other_doc, content = []\<rparr> = Inr other_doc"
    by simp_all
  have g: "py_getitem other_doc ''media_type'' = Inr (JString ''other'')"
    by (simp add: other_doc_def)
  have n1: "JString ''other'' \<noteq> JString ''image''" and n2: "JString ''other'' \<noteq> JString ''video''"
    by simp_all
  from main_unknown_media_type [OF r s j g n1 n2, of Map.empty]
  have "main world Map.empty =
     \<lparr>trace = [Getenv ''APOD_API_KEY'',
               HttpGet (JString ''https://api.nasa.gov/planetary/apod?api_key=DEMO_KEY&thumbs=True''),
               ParseJson, Print ''Error Parsing APOD API JSON''],
      files = Map.empty, outcome = SysExit 1\<rparr>"
    by (simp add: world_def world_eval)
  then show ?thesis unfolding world_def .
qed

text \<open>
  C8: a square bitmap is scaled to \<open>240 \<times> 240\<close>, the smaller side of the screen both
  ways, whatever its size.
\<close>

theorem scale_square: "scale n n = Inr (240, 240)"
  by (simp add: scale_def screen_width_def screen_height_def)



text \<open>
  C10: for sides below \<open>2 ^ 31\<close>, a bitmap more than 320 times wider than tall gets
  the target height 0, and \<open>Image.resize\<close> is called with \<open>(320, 0)\<close>; likewise a
  bitmap more than 240 times taller than wide gets the target width 0. No side is kept
  at 1 pixel or more.
\<close>

theorem scale_zero_side:
  assumes "image_width < 2 ^ 31" and "image_height < 2 ^ 31"
  shows "(320 * image_height < image_width \<longrightarrow>
            scale image_width image_height = Inr (320, 0) \<and>
            (\<forall>(world::env) fs tr (response::http_response) im.
               image_open world (content response) = Inr im \<and>
               image_size im = (image_width, image_height) \<longrightarrow>
               ImageResize (320, 0) \<in> set (trace (process_image world fs tr response)))) \<and>
         (240 * image_width < image_height \<longrightarrow>
            scale image_width image_height = Inr (0, 240))"
proof (intro conjI impI allI)
  assume a: "320 * image_height < image_width"
  then have "scaled_side 320 image_width image_height = Inr 0"
    using assms(1) by (intro scaled_side_zero) simp_all
  moreover from a have "image_height < image_width" by simp
  ultimately show s: "scale image_width image_height = Inr (320, 0)"
    by (simp add: scale_def screen_width_def)
  fix world :: env and fs tr and response :: http_response and im
  assume "image_open world (content response) = Inr im \<and>
          image_size im = (image_width, image_height)"
  with s show "ImageResize (320, 0) \<in> set (trace (process_image world fs tr response))"
    by (simp add: process_image_def Let_def finish_simps split: sum.splits option.splits)
next
  assume a: "240 * image_width < image_height"
  then have "scaled_side 240 image_height image_width = Inr 0"
    using assms(2) by (intro scaled_side_zero) simp_all
  moreover from a have "image_width < image_height" by simp
  ultimately show "scale image_width image_height = Inr (0, 240)"
    by (simp add: scale_def screen_height_def)
qed

theorem scale_zero_side_witness:
  "scale 1000 3 = Inr (320, 0) \<and>
   ImageResize (320, 0) \<in> set (trace (main (sample_world 200 image_doc 200 (1000, 3)) Map.empty)) \<and>
   scale 2 500 = Inr (0, 240)"
proof -
  have small: "(1000::nat) < 2 ^ 31" "(3::nat) < 2 ^ 31" "(2::nat) < 2 ^ 31" "(500::nat) < 2 ^ 31"
    by simp_all
  define world where "world = sample_world 200 image_doc 200 (1000, 3)"
  define response where
    "response = \<lparr>status_code = 200, json = Inl (LibraryError ''JSONDecodeError''),
                  content = [255, 216, 255::nat]\<rparr>"
  define tr where
    "tr = [Getenv ''APOD_API_KEY'', HttpGet (JString (apod_api_url world)), ParseJson,
           HttpGet (JString ''http://x/img.jpg'')]"
  have m: "main world Map.empty = process_image world Map.empty tr response"
    by (simp add: main_def download_image_def select_image_url_def Let_def world_def
        sample_world_def image_doc_def response_def tr_def)
  have o: "image_open world (content response) = Inr \<lparr>image_size = (1000, 3), image_data = [255, 216, 255]\<rparr>"
    by (simp add: world_def sample_world_def response_def)
  from scale_zero_side [OF small(1) small(2)] o
  have "scale 1000 3 = Inr (320, 0) \<and>
        ImageResize (320, 0) \<in> set (trace (process_image world Map.empty tr response))"
    by simp
  moreover from scale_zero_side [OF small(3) small(4)]
  have "scale 2 500 = Inr (0, 240)" by simp
  ultimately have "scale 1000 3 = Inr (320, 0) \<and>
      ImageResize (320, 0) \<in> set (trace (main world Map.empty)) \<and>
      scale 2 500 = Inr (0, 240)"
    by (simp add: m)
  then show ?thesis unfolding world_def .
qed

end
